theory Spec2Isabelle
  imports Main "HOL-Library.Char_ord" "HOL-Library.List_Lexorder"
begin

section \<open>Tokens (token.go)\<close>

text \<open>
  A Go \<open>string\<close> and a Go \<open>[]byte\<close> are both sequences of bytes; HOL's \<open>char\<close> is
  an 8-bit value, so both are modelled as \<open>string\<close>. Go compares strings bytewise and
  lexicographically, which is the order of \<open>HOL-Library.List_Lexorder\<close> over
  \<open>HOL-Library.Char_ord\<close>. Go's \<open>int\<close> is modelled as \<open>int\<close>.
\<close>

record Token =
  ID :: int
  Value :: string
  Index :: int

definition Equals :: "Token \<Rightarrow> Token \<Rightarrow> bool" where
  "Equals t other \<longleftrightarrow> ID t = ID other \<and> Value t = Value other \<and> Index t = Index other"

definition Less :: "Token \<Rightarrow> Token \<Rightarrow> bool" where
  "Less t other =
     (if Value t < Value other then True
      else if ID t < ID other then True
      else Index t < Index other)"

text \<open>The order the documentation describes: by value, then pattern index, then offset.\<close>

definition lex_before :: "Token \<Rightarrow> Token \<Rightarrow> bool" where
  "lex_before t u \<longleftrightarrow>
     Value t < Value u \<or>
     (Value t = Value u \<and> (ID t < ID u \<or> (ID t = ID u \<and> Index t < Index u)))"

section \<open>Errors (the Error interface and its three implementations)\<close>

text \<open>
  The wrapped \<open>error\<close> values of \<open>RegexError\<close> and \<open>InputError\<close> only carry a diagnostic
  text and are left out. A Go function either returns or panics; a loop may also run
  forever, which is \<open>None\<close> where it can happen.
\<close>

datatype Error = RegexError | MatchError int | InputError

datatype 'a exec = Returns 'a | Panics

section \<open>The scan buffer (indexedBuffer)\<close>

record indexedBuffer =
  buffer :: string
  index :: int

text \<open>
  Go's slice expression \<open>s[lo:hi]\<close> and index expression \<open>s[i]\<close> panic out of range.
  (Go checks \<open>hi\<close> against the capacity; the model takes the capacity to be the length.)
\<close>

definition slice :: "string \<Rightarrow> int \<Rightarrow> int \<Rightarrow> string exec" where
  "slice s lo hi =
     (if 0 \<le> lo \<and> lo \<le> hi \<and> hi \<le> int (length s)
      then Returns (take (nat (hi - lo)) (drop (nat lo) s)) else Panics)"

definition at_index :: "'a list \<Rightarrow> int \<Rightarrow> 'a exec" where
  "at_index xs i = (if 0 \<le> i \<and> i < int (length xs) then Returns (xs ! nat i) else Panics)"

definition endOfInput :: "indexedBuffer \<Rightarrow> bool" where
  "endOfInput b \<longleftrightarrow> index b \<ge> int (length (buffer b))"

definition advance :: "indexedBuffer \<Rightarrow> int \<Rightarrow> indexedBuffer" where
  "advance b n = b\<lparr>index := index b + n\<rparr>"

definition next_bytes :: "indexedBuffer \<Rightarrow> string exec" where
  "next_bytes b = slice (buffer b) (index b) (int (length (buffer b)))"

definition current :: "indexedBuffer \<Rightarrow> char exec" where
  "current b = at_index (buffer b) (index b)"

definition substring :: "indexedBuffer \<Rightarrow> int \<Rightarrow> string exec" where
  "substring b n = slice (buffer b) (index b) (index b + n)"

text \<open>
  \<open>unicode.IsSpace(rune(r))\<close> for a byte \<open>r\<close>: the rune is in the Latin-1 range, where the
  white space characters are tab, newline, vertical tab, form feed, carriage return, space,
  U+0085 and U+00A0.
\<close>

definition IsSpace :: "char \<Rightarrow> bool" where
  "IsSpace r \<longleftrightarrow> (of_char r :: nat) \<in> {0x09, 0x0A, 0x0B, 0x0C, 0x0D, 0x20, 0x85, 0xA0}"

function skipWhitespace :: "indexedBuffer \<Rightarrow> bool \<Rightarrow> indexedBuffer exec" where
  "skipWhitespace b skipNL =
     (if \<not> endOfInput b then
        (case at_index (buffer b) (index b) of
           Panics \<Rightarrow> Panics
         | Returns r \<Rightarrow>
             if (\<not> skipNL \<and> r = CHR 0x0A) \<or> \<not> IsSpace r then Returns b
             else skipWhitespace (b\<lparr>index := index b + 1\<rparr>) skipNL)
      else Returns b)"
  by pat_completeness auto
termination
  by (relation "measure (\<lambda>(b, _). nat (int (length (buffer b)) - index b))")
    (auto simp: endOfInput_def)

declare skipWhitespace.simps [simp del]

section \<open>The regular expressions of Go's \<open>regexp\<close> package\<close>

text \<open>
  The lexer builds one pattern string and hands it to \<open>regexp.Compile\<close>; which token it
  emits is decided by how that string is parsed and matched. The package is not part of
  the repository, so it is modelled here from its documentation, for a fragment of its
  syntax: literal ASCII characters, a backslash before an ASCII character that is not
  alphanumeric, \<open>^\<close>, alternation, juxtaposition, groups \<open>(...)\<close>, \<open>(?P<name>...)\<close> and
  \<open>(?:...)\<close>, and \<open>*\<close>, \<open>+\<close>, \<open>?\<close> after a single character. A pattern that uses anything
  else is \<open>Unsupported\<close>: the model says nothing about it. \<open>Rejected\<close> is a pattern the
  package refuses to compile.
\<close>

datatype repop = Star | Plus | Quest

datatype regex =
    Eps
  | Lit char
  | Bol
  | Rep repop char
  | Grp "string option" regex
  | Seq regex regex
  | Alt regex regex

datatype rtoken =
    TLit char | TCaret | TRep repop | TBar | TOpen "string option" | TOpenNC | TClose

datatype compile_error = Rejected | Unsupported

definition is_ascii :: "char \<Rightarrow> bool" where
  "is_ascii c \<longleftrightarrow> (of_char c :: nat) < 128"

definition is_digit :: "char \<Rightarrow> bool" where
  "is_digit c \<longleftrightarrow> 48 \<le> (of_char c :: nat) \<and> (of_char c :: nat) \<le> 57"

definition isalnum :: "char \<Rightarrow> bool" where
  "isalnum c \<longleftrightarrow> is_digit c
     \<or> (65 \<le> (of_char c :: nat) \<and> (of_char c :: nat) \<le> 90)
     \<or> (97 \<le> (of_char c :: nat) \<and> (of_char c :: nat) \<le> 122)"

text \<open>A capture name is a non-empty sequence of letters, digits and underscores.\<close>

definition isValidCaptureName :: "string \<Rightarrow> bool" where
  "isValidCaptureName name \<longleftrightarrow> name \<noteq> [] \<and> list_all (\<lambda>c. c = CHR ''_'' \<or> isalnum c) name"

text \<open>The text up to the first \<open>>\<close>, and what follows it.\<close>

fun scan_name :: "string \<Rightarrow> (string \<times> string) option" where
  "scan_name [] = None"
| "scan_name (c # cs) =
     (if c = CHR ''>'' then Some ([], cs)
      else (case scan_name cs of None \<Rightarrow> None | Some (n, r) \<Rightarrow> Some (c # n, r)))"

text \<open>The first token of a non-empty pattern text, and the text after it.\<close>

fun next_token :: "string \<Rightarrow> compile_error + rtoken \<times> string" where
  "next_token [] = Inl Rejected"
| "next_token (c # cs) =
     (if c = CHR 0x5C then
        (case cs of
           [] \<Rightarrow> Inl Rejected
         | d # ds \<Rightarrow> if is_ascii d \<and> \<not> isalnum d then Inr (TLit d, ds) else Inl Unsupported)
      else if c = CHR ''('' then
        (if take 1 cs \<noteq> ''?'' then Inr (TOpen None, cs)
         else if take 2 cs = ''?:'' then Inr (TOpenNC, drop 2 cs)
         else if take 3 cs = ''?P<'' then
           (case scan_name (drop 3 cs) of
              None \<Rightarrow> Inl Rejected
            | Some (name, rest) \<Rightarrow>
                if isValidCaptureName name then Inr (TOpen (Some name), rest) else Inl Rejected)
         else Inl Unsupported)
      else if c = CHR '')'' then Inr (TClose, cs)
      else if c = CHR ''|'' then Inr (TBar, cs)
      else if c = CHR ''^'' then Inr (TCaret, cs)
      else if c = CHR ''*'' then Inr (TRep Star, cs)
      else if c = CHR ''+'' then Inr (TRep Plus, cs)
      else if c = CHR ''?'' then Inr (TRep Quest, cs)
      else if c \<in> set ''.$[]{}'' \<or> \<not> is_ascii c then Inl Unsupported
      else Inr (TLit c, cs))"

definition tcons :: "rtoken \<Rightarrow> compile_error + rtoken list \<Rightarrow> compile_error + rtoken list" where
  "tcons t r = (case r of Inl e \<Rightarrow> Inl e | Inr ts \<Rightarrow> Inr (t # ts))"

function tokenize :: "string \<Rightarrow> compile_error + rtoken list" where
  "tokenize s =
     (if s = [] then Inr []
      else (case next_token s of
              Inl e \<Rightarrow> Inl e
            | Inr (t, rest) \<Rightarrow> tcons t (tokenize rest)))"
  by pat_completeness auto
termination
proof (relation "measure length")
  show "wf (measure length)" by simp
next
  fix s :: string and x t rest
  assume "s \<noteq> []" and nt: "next_token s = Inr x" and x: "(t, rest) = x"
  have name: "length r < length cs" if "scan_name cs = Some (n, r)" for cs n r
    using that by (induction cs arbitrary: n r) (auto split: if_splits option.splits)
  from nt x have "length rest < length s"
    by (cases s)
      (auto split: if_splits list.splits option.splits dest: name
        intro: le_less_trans [OF diff_le_self])
  then show "(rest, s) \<in> measure length" by simp
qed

declare tokenize.simps [simp del]

text \<open>
  The parser keeps a stack of open groups. A frame holds the kind of its group, the
  alternatives completed so far and the items of the alternative being read, latest first.
\<close>

datatype gkind = Top | NonCap | Cap "string option"

datatype frame = Frame gkind "regex list" "regex list"

fun mk_seq :: "regex list \<Rightarrow> regex" where
  "mk_seq [] = Eps"
| "mk_seq (x # xs) = Seq x (mk_seq xs)"

fun mk_alt :: "regex list \<Rightarrow> regex" where
  "mk_alt [] = Eps"
| "mk_alt [x] = x"
| "mk_alt (x # xs) = Alt x (mk_alt xs)"

definition close_frame :: "regex list \<Rightarrow> regex list \<Rightarrow> regex" where
  "close_frame as cur = mk_alt (as @ [mk_seq (rev cur)])"

fun pstep :: "rtoken \<Rightarrow> frame list \<Rightarrow> compile_error + frame list" where
  "pstep t [] = Inl Rejected"
| "pstep t (Frame k as cur # fs) =
     (case t of
        TLit c \<Rightarrow> Inr (Frame k as (Lit c # cur) # fs)
      | TCaret \<Rightarrow> Inr (Frame k as (Bol # cur) # fs)
      | TRep op \<Rightarrow>
          (case cur of
             [] \<Rightarrow> Inl Rejected
           | Lit c # cur' \<Rightarrow> Inr (Frame k as (Rep op c # cur') # fs)
           | _ \<Rightarrow> Inl Unsupported)
      | TBar \<Rightarrow> Inr (Frame k (as @ [mk_seq (rev cur)]) [] # fs)
      | TOpen name \<Rightarrow> Inr (Frame (Cap name) [] [] # Frame k as cur # fs)
      | TOpenNC \<Rightarrow> Inr (Frame NonCap [] [] # Frame k as cur # fs)
      | TClose \<Rightarrow>
          (case fs of
             [] \<Rightarrow> Inl Rejected
           | Frame k' as' cur' # fs' \<Rightarrow>
               Inr (Frame k' as'
                 ((case k of Cap name \<Rightarrow> Grp name (close_frame as cur)
                   | _ \<Rightarrow> close_frame as cur) # cur') # fs')))"

fun prun :: "rtoken list \<Rightarrow> frame list \<Rightarrow> compile_error + frame list" where
  "prun [] fs = Inr fs"
| "prun (t # ts) fs = (case pstep t fs of Inl e \<Rightarrow> Inl e | Inr fs' \<Rightarrow> prun ts fs')"

definition finish :: "frame list \<Rightarrow> compile_error + regex" where
  "finish fs = (case fs of [Frame k as cur] \<Rightarrow> Inr (close_frame as cur) | _ \<Rightarrow> Inl Rejected)"

definition parse :: "string \<Rightarrow> compile_error + regex" where
  "parse s =
     (case tokenize s of
        Inl e \<Rightarrow> Inl e
      | Inr ts \<Rightarrow> (case prun ts [Frame Top [] []] of Inl e \<Rightarrow> Inl e | Inr fs \<Rightarrow> finish fs))"

subsection \<open>Matching\<close>

text \<open>
  Capturing groups are numbered from 1 in the order of their opening parentheses. A thread
  is one way for an expression to match from a start position: the position where it ends
  and the extents of the groups it went through. \<open>threads r k s (p, c)\<close> lists the threads
  of \<open>r\<close>, whose first group has number \<open>k\<close>, on the text \<open>s\<close> from position \<open>p\<close>, in the
  order in which a backtracking search finds them (the first alternative before the
  second, more repetitions before fewer).
\<close>

fun ngroups :: "regex \<Rightarrow> nat" where
  "ngroups (Grp name r) = Suc (ngroups r)"
| "ngroups (Seq a b) = ngroups a + ngroups b"
| "ngroups (Alt a b) = ngroups a + ngroups b"
| "ngroups _ = 0"

fun group_names :: "regex \<Rightarrow> string list" where
  "group_names (Grp name r) = (case name of None \<Rightarrow> [] | Some n \<Rightarrow> n) # group_names r"
| "group_names (Seq a b) = group_names a @ group_names b"
| "group_names (Alt a b) = group_names a @ group_names b"
| "group_names _ = []"

type_synonym caps = "nat \<Rightarrow> (nat \<times> nat) option"

type_synonym thread = "nat \<times> caps"

fun nrun :: "char \<Rightarrow> string \<Rightarrow> nat" where
  "nrun x [] = 0"
| "nrun x (c # cs) = (if c = x then Suc (nrun x cs) else 0)"

fun rep_counts :: "repop \<Rightarrow> nat \<Rightarrow> nat list" where
  "rep_counts Star n = rev [0..<Suc n]"
| "rep_counts Plus n = rev [1..<Suc n]"
| "rep_counts Quest n = rev [0..<Suc (min n 1)]"

fun threads :: "regex \<Rightarrow> nat \<Rightarrow> string \<Rightarrow> thread \<Rightarrow> thread list" where
  "threads Eps k s (p, c) = [(p, c)]"
| "threads (Lit x) k s (p, c) = (if p < length s \<and> s ! p = x then [(Suc p, c)] else [])"
| "threads Bol k s (p, c) = (if p = 0 then [(p, c)] else [])"
| "threads (Rep op x) k s (p, c) = map (\<lambda>j. (p + j, c)) (rep_counts op (nrun x (drop p s)))"
| "threads (Grp name r) k s (p, c) =
     map (\<lambda>(e, c'). (e, c'(k \<mapsto> (p, e)))) (threads r (Suc k) s (p, c))"
| "threads (Seq a b) k s t = concat (map (threads b (k + ngroups a) s) (threads a k s t))"
| "threads (Alt a b) k s t = threads a k s t @ threads b (k + ngroups a) s t"

text \<open>
  After \<open>Longest()\<close> the match is the leftmost one and, among the threads from that start,
  a longest one; the package documents that among several longest ones it takes the one a
  backtracking search finds first. Without \<open>Longest()\<close> it is the first thread.
\<close>

fun first_longest :: "thread list \<Rightarrow> thread option" where
  "first_longest [] = None"
| "first_longest (t # ts) =
     (case first_longest ts of
        None \<Rightarrow> Some t
      | Some u \<Rightarrow> if fst t < fst u then Some u else Some t)"

fun first_thread :: "thread list \<Rightarrow> thread option" where
  "first_thread [] = None"
| "first_thread (t # ts) = Some t"

record Regexp =
  expr :: regex
  longest :: bool

fun leftmost :: "Regexp \<Rightarrow> string \<Rightarrow> nat list \<Rightarrow> caps option" where
  "leftmost re s [] = None"
| "leftmost re s (p # ps) =
     (case (if longest re then first_longest else first_thread)
             (threads (expr re) 1 s (p, Map.empty)) of
        Some (e, c) \<Rightarrow> Some (c(0 \<mapsto> (p, e)))
      | None \<Rightarrow> leftmost re s ps)"

definition doExecute :: "Regexp \<Rightarrow> string \<Rightarrow> caps option" where
  "doExecute re s = leftmost re s [0..<Suc (length s)]"

definition Compile :: "string \<Rightarrow> compile_error + Regexp" where
  "Compile s = (case parse s of Inl e \<Rightarrow> Inl e | Inr r \<Rightarrow> Inr \<lparr>expr = r, longest = False\<rparr>)"

definition Longest :: "Regexp \<Rightarrow> Regexp" where
  "Longest re = re\<lparr>longest := True\<rparr>"

definition NumSubexp :: "Regexp \<Rightarrow> int" where
  "NumSubexp re = int (ngroups (expr re))"

definition SubexpNames :: "Regexp \<Rightarrow> string list" where
  "SubexpNames re = [] # group_names (expr re)"

text \<open>
  \<open>FindAllSubmatchIndex(b, 1)\<close>, the only way the lexer calls it: no match, or the first
  match as the start and end offsets of the whole match and of every group, \<open>-1\<close> for a
  group that took no part.
\<close>

definition cap_pair :: "caps \<Rightarrow> nat \<Rightarrow> int list" where
  "cap_pair c i = (case c i of None \<Rightarrow> [-1, -1] | Some (b, e) \<Rightarrow> [int b, int e])"

definition FindAllSubmatchIndex :: "Regexp \<Rightarrow> string \<Rightarrow> int list list" where
  "FindAllSubmatchIndex re b =
     (case doExecute re b of
        None \<Rightarrow> []
      | Some c \<Rightarrow> [concat (map (cap_pair c) [0..<Suc (ngroups (expr re))])])"

subsection \<open>\<open>strconv.ParseInt(s, 10, 32)\<close> and \<open>fmt.Sprintf("%d", i)\<close>\<close>

fun digits_value :: "string \<Rightarrow> nat \<Rightarrow> nat" where
  "digits_value [] acc = acc"
| "digits_value (c # cs) acc = digits_value cs (10 * acc + (of_char c - 48))"

definition ParseInt :: "string \<Rightarrow> int option" where
  "ParseInt s =
     (let neg = (take 1 s = ''-'');
          ds = (if take 1 s = ''-'' \<or> take 1 s = ''+'' then drop 1 s else s)
      in if ds = [] \<or> \<not> list_all is_digit ds then None
         else let v = (if neg then - int (digits_value ds 0) else int (digits_value ds 0))
              in if - (2 ^ 31) \<le> v \<and> v < 2 ^ 31 then Some v else None)"

function itoa :: "nat \<Rightarrow> string" where
  "itoa n = (if n < 10 then [char_of (48 + n)] else itoa (n div 10) @ [char_of (48 + n mod 10)])"
  by pat_completeness auto
termination
  by (relation "measure id") auto

declare itoa.simps [simp del]

section \<open>The lexer (lexer.go)\<close>

record Lexer =
  lexemes :: "string list"
  regexps :: Regexp
  skipNewline :: bool

text \<open>\<open>fmt.Sprintf("(?P<%d>^%s)", i, lexeme)\<close>\<close>

definition Sprintf_group :: "nat \<Rightarrow> string \<Rightarrow> string" where
  "Sprintf_group i lexeme = ''(?P<'' @ itoa i @ ''>^'' @ lexeme @ '')''"

text \<open>
  The loop of \<open>New\<close> over the lexemes, from index \<open>i\<close>, on the pair of the skip-newline flag
  and the pattern string built so far.
\<close>

fun New_loop :: "nat \<Rightarrow> string list \<Rightarrow> bool \<times> string \<Rightarrow> bool \<times> string" where
  "New_loop i [] st = st"
| "New_loop i (lexeme # rest) (skipNL, regexpString) =
     New_loop (Suc i) rest
       (if lexeme = [CHR 0x0A] then False else skipNL,
        (if i \<noteq> 0 then regexpString @ ''|'' else regexpString) @ Sprintf_group i lexeme)"

text \<open>
  \<open>New\<close> returns the lexer or a \<open>RegexError\<close>; \<open>None\<close> is a pattern string outside the
  modelled fragment of the regular expression syntax.
\<close>

definition New :: "string list \<Rightarrow> (Error + Lexer) option" where
  "New lexemes' =
     (case New_loop 0 lexemes' (True, []) of
        (skipNL, regexpString) \<Rightarrow>
          (case Compile regexpString of
             Inl Rejected \<Rightarrow> Some (Inl RegexError)
           | Inl Unsupported \<Rightarrow> None
           | Inr compiledRegex \<Rightarrow>
               Some (Inr \<lparr>lexemes = lexemes', regexps = Longest compiledRegex,
                          skipNewline = skipNL\<rparr>)))"

text \<open>
  \<open>string(b)\<close> for a byte \<open>b\<close> is the UTF-8 encoding of the code point \<open>b\<close>.
\<close>

definition string_of_byte :: "char \<Rightarrow> string" where
  "string_of_byte c =
     (if is_ascii c then [c]
      else [char_of (192 + (of_char c :: nat) div 64), char_of (128 + (of_char c :: nat) mod 64)])"

text \<open>
  The loop of \<open>getNextToken\<close> over the subexpressions, from \<open>i\<close> with \<open>n\<close> iterations left:
  the identifier and the extent of the first group that matched and whose name is a
  number, or \<open>None\<close> when the loop runs out.
\<close>

fun find_group :: "int list \<Rightarrow> string list \<Rightarrow> int \<Rightarrow> nat \<Rightarrow> (int \<times> int \<times> int) option exec" where
  "find_group matches names i 0 = Returns None"
| "find_group matches names i (Suc n) =
     (case (at_index matches (2 * (i + 1)), at_index matches (2 * (i + 1) + 1)) of
        (Returns beg, Returns end) \<Rightarrow>
          if beg = - 1 then find_group matches names (i + 1) n
          else (case at_index names (i + 1) of
                  Panics \<Rightarrow> Panics
                | Returns name \<Rightarrow>
                    (case ParseInt name of
                       None \<Rightarrow> find_group matches names (i + 1) n
                     | Some dn \<Rightarrow> Returns (Some (dn, beg, end))))
      | _ \<Rightarrow> Panics)"

text \<open>
  \<open>getNextToken\<close> returns the token and the error, and leaves the buffer advanced.
\<close>

definition getNextToken :: "Lexer \<Rightarrow> indexedBuffer \<Rightarrow> ((Token \<times> Error option) \<times> indexedBuffer) exec" where
  "getNextToken l b =
     (case next_bytes b of
        Panics \<Rightarrow> Panics
      | Returns nb \<Rightarrow>
          (case FindAllSubmatchIndex (regexps l) nb of
             [] \<Rightarrow>
               (case current b of
                  Panics \<Rightarrow> Panics
                | Returns c \<Rightarrow>
                    Returns ((\<lparr>ID = - 1, Value = string_of_byte c, Index = index b\<rparr>,
                              Some (MatchError (index b))), b))
           | matches # _ \<Rightarrow>
               (case find_group matches (SubexpNames (regexps l)) 0
                       (nat (NumSubexp (regexps l))) of
                  Panics \<Rightarrow> Panics
                | Returns None \<Rightarrow> Panics
                | Returns (Some (dn, beg, end)) \<Rightarrow>
                    (case substring b (end - beg) of
                       Panics \<Rightarrow> Panics
                     | Returns v \<Rightarrow>
                         Returns ((\<lparr>ID = dn, Value = v, Index = index b\<rparr>, None),
                                  advance b (end - beg))))))"

text \<open>
  The loop of \<open>Lex\<close>. It returns the token list and the error, panics, or runs forever
  (\<open>None\<close>).
\<close>

partial_function (option) Lex_loop ::
  "Lexer \<Rightarrow> indexedBuffer \<Rightarrow> Token list \<Rightarrow> (Token list \<times> Error option) exec option" where
  "Lex_loop l b list =
     (case skipWhitespace b (skipNewline l) of
        Panics \<Rightarrow> Some Panics
      | Returns b1 \<Rightarrow>
          if endOfInput b1 then Some (Returns (list, None))
          else (case getNextToken l b1 of
                  Panics \<Rightarrow> Some Panics
                | Returns ((token, err), b2) \<Rightarrow>
                    (case err of
                       Some e \<Rightarrow> Some (Returns ([], Some e))
                     | None \<Rightarrow> Lex_loop l b2 (list @ [token]))))"

declare Lex_loop.simps [code]

text \<open>The reader either delivers all its bytes or fails (\<open>ioutil.ReadAll\<close>).\<close>

datatype Reader = Bytes string | Broken

definition Lex :: "Lexer \<Rightarrow> Reader \<Rightarrow> (Token list \<times> Error option) exec option" where
  "Lex l input =
     (case input of
        Broken \<Rightarrow> Some (Returns ([], Some InputError))
      | Bytes bytes \<Rightarrow> Lex_loop l \<lparr>buffer = bytes, index = 0\<rparr> [])"

section \<open>Notions used to state the properties\<close>

text \<open>
  \<open>scan l input b list\<close>: the loop of \<open>Lex\<close>, run by the lexer \<open>l\<close> on \<open>input\<close>, comes to
  its head with the buffer \<open>b\<close> and the tokens \<open>list\<close> selected so far.
\<close>

inductive scan :: "Lexer \<Rightarrow> string \<Rightarrow> indexedBuffer \<Rightarrow> Token list \<Rightarrow> bool"
  for l :: Lexer and input :: string where
  scan_start: "scan l input \<lparr>buffer = input, index = 0\<rparr> []"
| scan_step: "scan l input b list \<Longrightarrow> skipWhitespace b (skipNewline l) = Returns b1 \<Longrightarrow>
     \<not> endOfInput b1 \<Longrightarrow> getNextToken l b1 = Returns ((token, None), b2) \<Longrightarrow>
     scan l input b2 (list @ [token])"

text \<open>
  \<open>emitted l input t\<close>: the token \<open>t\<close> is what \<open>getNextToken\<close> returns at offset \<open>Index t\<close> of
  \<open>input\<close>, an offset inside the input whose byte \<open>skipWhitespace\<close> does not skip.
\<close>

definition emitted :: "Lexer \<Rightarrow> string \<Rightarrow> Token \<Rightarrow> bool" where
  "emitted l input t \<longleftrightarrow>
     0 \<le> Index t \<and> Index t < int (length input)
     \<and> ((\<not> skipNewline l \<and> input ! nat (Index t) = CHR 0x0A) \<or> \<not> IsSpace (input ! nat (Index t)))
     \<and> (\<exists>b2. getNextToken l \<lparr>buffer = input, index = Index t\<rparr> = Returns ((t, None), b2))"

text \<open>
  \<open>match_len p s\<close>: the length of the longest match of the pattern \<open>p\<close>, taken by itself,
  at the start of the text \<open>s\<close>; \<open>None\<close> when \<open>p\<close> does not match there (or is not a regular
  expression of the fragment by itself).
\<close>

definition match_len :: "string \<Rightarrow> string \<Rightarrow> nat option" where
  "match_len p s =
     (case parse p of
        Inl e \<Rightarrow> None
      | Inr r \<Rightarrow> map_option fst (first_longest (threads r 1 s (0, Map.empty))))"

text \<open>
  What the tests of the repository do with a case: \<open>New\<close> on the patterns, then \<open>Lex\<close> on a
  reader over the input string.
\<close>

definition lex_string :: "string list \<Rightarrow> string \<Rightarrow> (Error + (Token list \<times> Error option) exec option) option" where
  "lex_string lexemes' input =
     (case New lexemes' of
        None \<Rightarrow> None
      | Some (Inl err) \<Rightarrow> Some (Inl err)
      | Some (Inr l) \<Rightarrow> Some (Inr (Lex l (Bytes input))))"


section \<open>Notions used in the proofs\<close>











section \<open>The test cases of the repository that lie in the fragment\<close>

text \<open>
  \<open>TestLexerGood\<close>, the two cases with the patterns \<open>to\<close>, \<open>be\<close>, \<open>or\<close>, \<open>not\<close>, without and
  with the newline pattern, and \<open>TestLexerBadRegexp\<close>, the patterns \<open>)\<close> and \<open>(\<close>.
\<close>

lemma TestLexerGood_newline_skipped:
  "lex_string [''to'', ''be'', ''or'', ''not''] (''to be'' @ [CHR 0x0A] @ ''or not to be'')
     = Some (Inr (Some (Returns
         ([\<lparr>ID = 0, Value = ''to'', Index = 0\<rparr>, \<lparr>ID = 1, Value = ''be'', Index = 3\<rparr>,
           \<lparr>ID = 2, Value = ''or'', Index = 6\<rparr>, \<lparr>ID = 3, Value = ''not'', Index = 9\<rparr>,
           \<lparr>ID = 0, Value = ''to'', Index = 13\<rparr>, \<lparr>ID = 1, Value = ''be'', Index = 16\<rparr>],
          None))))"
  by code_simp

lemma TestLexerGood_newline_token:
  "lex_string [''to'', ''be'', ''or'', ''not'', [CHR 0x0A]] (''to be'' @ [CHR 0x0A] @ ''or not to be'')
     = Some (Inr (Some (Returns
         ([\<lparr>ID = 0, Value = ''to'', Index = 0\<rparr>, \<lparr>ID = 1, Value = ''be'', Index = 3\<rparr>,
           \<lparr>ID = 4, Value = [CHR 0x0A], Index = 5\<rparr>,
           \<lparr>ID = 2, Value = ''or'', Index = 6\<rparr>, \<lparr>ID = 3, Value = ''not'', Index = 9\<rparr>,
           \<lparr>ID = 0, Value = ''to'', Index = 13\<rparr>, \<lparr>ID = 1, Value = ''be'', Index = 16\<rparr>],
          None))))"
  by code_simp

lemma TestLexerBadRegexp_parentheses:
  "New ['')''] = Some (Inl RegexError) \<and> New [''(''] = Some (Inl RegexError)"
  by code_simp

section \<open>Facts about the loop of \<open>Lex\<close>\<close>

lemma skipWhitespace_Returns:
  "skipWhitespace b f = Returns b' \<Longrightarrow>
     buffer b' = buffer b \<and> index b \<le> index b' \<and>
     (index b' \<le> int (length (buffer b)) \<or> index b' = index b)"
proof (induction b f arbitrary: b' rule: skipWhitespace.induct)
  case (1 b f)
  show ?case
  proof (cases "endOfInput b")
    case True
    with "1.prems" show ?thesis by (simp add: skipWhitespace.simps [of b])
  next
    case False
    show ?thesis
    proof (cases "at_index (buffer b) (index b)")
      case Panics
      with False "1.prems" show ?thesis by (simp add: skipWhitespace.simps [of b])
    next
      case (Returns r)
      show ?thesis
      proof (cases "(\<not> f \<and> r = CHR 0x0A) \<or> \<not> IsSpace r")
        case True
        with False Returns "1.prems" show ?thesis by (auto simp: skipWhitespace.simps [of b])
      next
        case stop: False
        with False Returns "1.prems"
        have rec: "skipWhitespace (b\<lparr>index := index b + 1\<rparr>) f = Returns b'"
          by (auto simp: skipWhitespace.simps [of b])
        from "1.IH" [OF False Returns stop rec] False
        show ?thesis by (auto simp: endOfInput_def)
      qed
    qed
  qed
qed

lemma skipWhitespace_stops:
  "skipWhitespace b f = Returns b' \<Longrightarrow> \<not> endOfInput b' \<Longrightarrow>
     0 \<le> index b' \<and>
     ((\<not> f \<and> buffer b' ! nat (index b') = CHR 0x0A) \<or> \<not> IsSpace (buffer b' ! nat (index b')))"
proof (induction b f arbitrary: b' rule: skipWhitespace.induct)
  case (1 b f)
  from "1.prems" have ne: "\<not> endOfInput b"
    by (auto simp: skipWhitespace.simps [of b] split: if_splits)
  show ?case
  proof (cases "at_index (buffer b) (index b)")
    case Panics
    with ne "1.prems" show ?thesis by (simp add: skipWhitespace.simps [of b])
  next
    case (Returns r)
    then have r: "0 \<le> index b" "r = buffer b ! nat (index b)"
      by (auto simp: at_index_def split: if_splits)
    show ?thesis
    proof (cases "(\<not> f \<and> r = CHR 0x0A) \<or> \<not> IsSpace r")
      case True
      with ne Returns "1.prems" r show ?thesis by (auto simp: skipWhitespace.simps [of b])
    next
      case stop: False
      with ne Returns "1.prems"
      have rec: "skipWhitespace (b\<lparr>index := index b + 1\<rparr>) f = Returns b'"
        by (auto simp: skipWhitespace.simps [of b])
      from "1.IH" [OF ne Returns stop rec "1.prems"(2)] show ?thesis .
    qed
  qed
qed

lemma getNextToken_token:
  assumes "getNextToken l b = Returns ((t, None), b2)"
  shows "substring b (int (length (Value t))) = Returns (Value t) \<and> Index t = index b
         \<and> b2 = advance b (int (length (Value t)))"
proof -
  from assms obtain dn beg en v where
    sub: "substring b (en - beg) = Returns v" and
    t: "t = \<lparr>ID = dn, Value = v, Index = index b\<rparr>" and b2: "b2 = advance b (en - beg)"
    by (auto simp: getNextToken_def split: exec.splits list.splits option.splits)
  from sub have "int (length v) = en - beg"
    by (auto simp: substring_def slice_def split: if_splits)
  with sub t b2 show ?thesis by simp
qed

lemma getNextToken_advances:
  assumes "getNextToken l b = Returns ((t, None), b2)"
  shows "buffer b2 = buffer b \<and> index b2 = index b + int (length (Value t))
         \<and> index b2 \<le> int (length (buffer b))"
  using getNextToken_token [OF assms]
  by (auto simp: advance_def substring_def slice_def split: if_splits)

lemmas Lex_loop_induct = Lex_loop.raw_induct [rotated 1, consumes 1, case_names step]

lemma Lex_loop_emits:
  "Lex_loop l b list = Some r \<Longrightarrow> 0 \<le> index b \<Longrightarrow> r = Returns (toks, None) \<Longrightarrow>
     \<exists>new. toks = list @ new \<and> (\<forall>t\<in>set new. emitted l (buffer b) t \<and> index b \<le> Index t)"
proof (induction arbitrary: toks rule: Lex_loop_induct)
  case (step LL l b list r)
  from step.hyps step.prems(2) obtain b1 where
    sk: "skipWhitespace b (skipNewline l) = Returns b1"
    by (auto split: exec.splits)
  from skipWhitespace_Returns [OF sk]
  have b1: "buffer b1 = buffer b" "index b \<le> index b1" by auto
  show ?case
  proof (cases "endOfInput b1")
    case True
    with sk step.hyps step.prems show ?thesis by auto
  next
    case False
    with sk step.hyps step.prems(2) obtain t b2 where
      g: "getNextToken l b1 = Returns ((t, None), b2)" and
      rec: "LL l b2 (list @ [t]) = Some r"
      by (auto split: exec.splits option.splits)
    from getNextToken_token [OF g] getNextToken_advances [OF g] b1 step.prems(1)
    have t: "Index t = index b1" "buffer b2 = buffer b" "0 \<le> index b2" "index b1 \<le> index b2"
      by auto
    from step.IH [OF rec t(3) step.prems(2)] obtain new where
      new: "toks = (list @ [t]) @ new"
        "\<forall>u\<in>set new. emitted l (buffer b2) u \<and> index b2 \<le> Index u" by blast
    have b1_eq: "b1 = \<lparr>buffer = buffer b, index = Index t\<rparr>"
      using b1 t by simp
    from skipWhitespace_stops [OF sk False] False b1 t g
    have "emitted l (buffer b) t"
      unfolding emitted_def b1_eq [symmetric] by (auto simp: endOfInput_def)
    with new t b1 show ?thesis by (intro exI [of _ "t # new"]) auto
  qed
qed

lemma Lex_emits:
  assumes "Lex l (Bytes input) = Some (Returns (toks, None))" and "t \<in> set toks"
  shows "emitted l input t"
  using Lex_loop_emits [of l "\<lparr>buffer = input, index = 0\<rparr>" "[]" _ toks] assms
  by (auto simp: Lex_def)


lemma scan_buffer:
  "scan l input b list \<Longrightarrow> buffer b = input \<and> 0 \<le> index b \<and> index b \<le> int (length input)"
proof (induction rule: scan.induct)
  case scan_start
  show ?case by simp
next
  case (scan_step b list b1 token b2)
  from skipWhitespace_Returns [OF scan_step.hyps(2)] getNextToken_advances [OF scan_step.hyps(4)]
    scan_step.IH
  show ?case by auto
qed

lemma scan_step_cursor:
  assumes pos: "\<forall>b list. scan l input b list \<longrightarrow> (\<forall>t\<in>set list. Value t \<noteq> [])"
    and sc: "scan l input b list"
    and sk: "skipWhitespace b (skipNewline l) = Returns b1"
    and ne: "\<not> endOfInput b1"
    and g: "getNextToken l b1 = Returns ((token, None), b2)"
  shows "index b \<le> index b1 \<and> index b1 < index b2 \<and> index b2 \<le> int (length input)"
proof -
  from scan_step [OF sc sk ne g] pos have "Value token \<noteq> []" by auto
  with skipWhitespace_Returns [OF sk] getNextToken_advances [OF g] scan_buffer [OF sc]
  show ?thesis by auto
qed

lemma Lex_loop_terminates:
  assumes pos: "\<forall>b list. scan l input b list \<longrightarrow> (\<forall>t\<in>set list. Value t \<noteq> [])"
  shows "scan l input b list \<Longrightarrow> \<exists>r. Lex_loop l b list = Some r"
proof (induction "nat (int (length input) - index b)" arbitrary: b list rule: less_induct)
  case less
  show ?case
  proof (cases "skipWhitespace b (skipNewline l)")
    case Panics
    then show ?thesis by (simp add: Lex_loop.simps [of l b])
  next
    case (Returns b1)
    show ?thesis
    proof (cases "endOfInput b1")
      case True
      with Returns show ?thesis by (simp add: Lex_loop.simps [of l b])
    next
      case False
      show ?thesis
      proof (cases "getNextToken l b1")
        case Panics
        with Returns False show ?thesis by (simp add: Lex_loop.simps [of l b])
      next
        case g: (Returns res)
        obtain token err b2 where res: "res = ((token, err), b2)"
          by (cases res) auto
        show ?thesis
        proof (cases err)
          case (Some e)
          with Returns False g res show ?thesis by (simp add: Lex_loop.simps [of l b])
        next
          case None
          with g res have g': "getNextToken l b1 = Returns ((token, None), b2)" by simp
          from scan_step_cursor [OF pos less.prems Returns False g']
          have "nat (int (length input) - index b2) < nat (int (length input) - index b)"
            by auto
          from less.hyps [OF this scan_step [OF less.prems Returns False g']]
          show ?thesis using Returns False g' by (simp add: Lex_loop.simps [of l b])
        qed
      qed
    qed
  qed
qed

lemma scan_Lex_loop:
  "scan l input b list \<Longrightarrow> Lex l (Bytes input) = Lex_loop l b list"
proof (induction rule: scan.induct)
  case scan_start
  show ?case by (simp add: Lex_def)
next
  case (scan_step b list b1 token b2)
  then show ?case by (simp add: Lex_loop.simps [of l b list])
qed

lemma Lex_MatchError:
  assumes "scan l input b list" and "skipWhitespace b (skipNewline l) = Returns b1"
    and "\<not> endOfInput b1"
    and "FindAllSubmatchIndex (regexps l) (drop (nat (index b1)) input) = []"
  shows "Lex l (Bytes input) = Some (Returns ([], Some (MatchError (index b1))))"
proof -
  from scan_buffer [OF assms(1)] skipWhitespace_Returns [OF assms(2)] assms(3)
  have b1: "buffer b1 = input" "0 \<le> index b1" "index b1 < int (length input)"
    by (auto simp: endOfInput_def)
  then have nb: "next_bytes b1 = Returns (drop (nat (index b1)) input)"
    by (simp add: next_bytes_def slice_def)
  from b1 have cur: "current b1 = Returns (input ! nat (index b1))"
    by (simp add: current_def at_index_def)
  from nb cur assms(4) have "getNextToken l b1
      = Returns ((\<lparr>ID = - 1, Value = string_of_byte (input ! nat (index b1)), Index = index b1\<rparr>,
                  Some (MatchError (index b1))), b1)"
    by (simp add: getNextToken_def)
  with assms(2,3) scan_Lex_loop [OF assms(1)] show ?thesis
    by (simp add: Lex_loop.simps [of l b list])
qed

section \<open>Facts about decimal numerals\<close>









section \<open>Facts about the pattern string and its parse\<close>






















section \<open>Facts about matching\<close>














lemma first_longest_None: "first_longest xs = None \<longleftrightarrow> xs = []"
  by (cases xs) (auto split: option.splits)













lemma leftmost_None:
  "leftmost re s qs = None \<Longrightarrow> longest re \<Longrightarrow>
     \<forall>p\<in>set qs. threads (expr re) 1 s (p, Map.empty) = []"
  by (induction qs) (auto simp: first_longest_None split: option.splits)



section \<open>Facts about \<open>getNextToken\<close>\<close>























section \<open>Properties\<close>

text \<open>
  In what follows a pattern \<^emph>\<open>matches\<close> at an offset of the input with length \<open>n\<close> when
  \<open>match_len\<close> of the pattern on the input from that offset is \<open>Some n\<close>; a pattern set is
  \<^emph>\<open>well formed\<close> when each of its patterns is a regular expression by itself
  (\<open>well_formed\<close>). \<open>New\<close> does not ask for that: it compiles the patterns spliced into one
  string, and a pattern such as \<open>)|(?P<7>abc\<close>, which closes the group that \<open>New\<close> opened and
  opens one of its own, is accepted. The package documentation asks the caller for regular
  expressions and passes them on verbatim.
\<close>







text \<open>
  C3. Claimed: the combined matcher reports a match of a pattern only where the pattern
  matches from the scan position on. \<open>New\<close> writes \<open>^\<close> in front of each pattern, inside the
  pattern's group; in a pattern with an alternation at its top, \<open>^\<close> binds to the first
  alternative only. For the pattern \<open>a|b\<close> the compiled expression is \<open>(^a)|(b)\<close> inside the
  group 0; on the input \<open>xb\<close> the pattern does not match at offset 0, the matcher reports
  the \<open>b\<close> at offsets 1 to 2 for the group, and \<open>Lex\<close> emits the token \<open>x\<close> for the pattern.
\<close>

theorem alternation_not_anchored:
  "Compile (snd (New_loop 0 [''a|b''] (True, [])))
     = Inr \<lparr>expr = Seq (Grp (Some ''0'')
                     (Alt (Seq Bol (Seq (Lit CHR ''a'') Eps)) (Seq (Lit CHR ''b'') Eps))) Eps,
            longest = False\<rparr>
   \<and> FindAllSubmatchIndex
         \<lparr>expr = Seq (Grp (Some ''0'')
                    (Alt (Seq Bol (Seq (Lit CHR ''a'') Eps)) (Seq (Lit CHR ''b'') Eps))) Eps,
           longest = True\<rparr> ''xb'' = [[1, 2, 1, 2]]
   \<and> match_len ''a|b'' ''xb'' = None
   \<and> lex_string [''a|b''] ''xb''
     = Some (Inr (Some (Returns
         ([\<lparr>ID = 0, Value = ''x'', Index = 0\<rparr>, \<lparr>ID = 0, Value = ''b'', Index = 1\<rparr>], None))))"
  by code_simp

text \<open>
  C4. Claimed: when the scan reaches an offset, not of white space, at which no pattern
  matches, \<open>Lex\<close> fails with a \<open>MatchError\<close> of that offset and returns no tokens. On the
  input \<open>cab\<close> the pattern \<open>a|b\<close> does not match at offset 0, and \<open>Lex\<close> returns three tokens
  and no error: the alternative \<open>b\<close> of the pattern is not anchored, the matcher finds a
  match further on, and \<open>getNextToken\<close> takes its length from the cursor. With no pattern at
  all, \<open>Lex\<close> on \<open>x\<close> panics instead of failing with \<open>MatchError 0\<close>.
\<close>

theorem unmatched_input_not_reported:
  "match_len ''a|b'' ''cab'' = None
   \<and> lex_string [''a|b''] ''cab''
     = Some (Inr (Some (Returns
         ([\<lparr>ID = 0, Value = ''c'', Index = 0\<rparr>, \<lparr>ID = 0, Value = ''a'', Index = 1\<rparr>,
           \<lparr>ID = 0, Value = ''b'', Index = 2\<rparr>], None))))
   \<and> lex_string [] ''x'' = Some (Inr (Some Panics))"
  by code_simp




text \<open>
  C6. For every token of the sequence that a successful \<open>Lex\<close> returns, the slice of the
  input that starts at the token's offset and has the length of its value is the value,
  byte for byte. This holds for every lexer, whatever its patterns.
\<close>

theorem Lex_round_trip:
  assumes "Lex l (Bytes input) = Some (Returns (toks, None))" and "t \<in> set toks"
  shows "slice input (Index t) (Index t + int (length (Value t))) = Returns (Value t)"
proof -
  from Lex_emits [OF assms] obtain b2 where
    "getNextToken l \<lparr>buffer = input, index = Index t\<rparr> = Returns ((t, None), b2)"
    by (auto simp: emitted_def)
  from getNextToken_token [OF this] show ?thesis by (simp add: substring_def)
qed

theorem Lex_round_trip_witness:
  "\<exists>l toks. New [''a''] = Some (Inr l) \<and> Lex l (Bytes ''a a'') = Some (Returns (toks, None))
     \<and> toks \<noteq> []
     \<and> list_all (\<lambda>t. slice ''a a'' (Index t) (Index t + int (length (Value t))) = Returns (Value t)) toks"
proof -
  define l where "l = \<lparr>lexemes = [''a''],
     regexps = \<lparr>expr = Seq (Grp (Some ''0'') (Seq Bol (Seq (Lit CHR ''a'') Eps))) Eps,
                longest = True\<rparr>, skipNewline = True\<rparr>"
  define toks where "toks = [\<lparr>ID = 0, Value = ''a'', Index = 0\<rparr>, \<lparr>ID = 0, Value = ''a'', Index = 2\<rparr>]"
  have new: "New [''a''] = Some (Inr l)"
    unfolding l_def by code_simp
  have lex: "Lex l (Bytes ''a a'') = Some (Returns (toks, None))"
    unfolding l_def toks_def by code_simp
  from Lex_round_trip [OF lex]
  have "list_all (\<lambda>t. slice ''a a'' (Index t) (Index t + int (length (Value t))) = Returns (Value t)) toks"
    by (simp add: list_all_iff)
  with new lex show ?thesis by (auto simp: toks_def)
qed




text \<open>
  C8. If every match selected during the scan of an input has positive length (every
  token appended at any point the loop reaches has a non-empty value), then \<open>Lex\<close>
  terminates on that input, and on each iteration the cursor strictly increases and stays
  within the input. This holds for every lexer, in particular for one built by \<open>New\<close>.
\<close>

theorem Lex_terminates:
  assumes "\<forall>b list. scan l input b list \<longrightarrow> (\<forall>t\<in>set list. Value t \<noteq> [])"
  shows "(\<exists>r. Lex l (Bytes input) = Some r)
    \<and> (\<forall>b list b1 token b2. scan l input b list \<longrightarrow>
          skipWhitespace b (skipNewline l) = Returns b1 \<longrightarrow> \<not> endOfInput b1 \<longrightarrow>
          getNextToken l b1 = Returns ((token, None), b2) \<longrightarrow>
          index b \<le> index b1 \<and> index b1 < index b2 \<and> index b2 \<le> int (length input))"
  using Lex_loop_terminates [OF assms scan_start] scan_step_cursor [OF assms]
  by (simp add: Lex_def)

theorem Lex_terminates_witness:
  "\<exists>l. New [''a''] = Some (Inr l) \<and> (\<exists>r. Lex l (Bytes ''a a'') = Some r)"
proof -
  define l where "l = \<lparr>lexemes = [''a''],
     regexps = \<lparr>expr = Seq (Grp (Some ''0'') (Seq Bol (Seq (Lit CHR ''a'') Eps))) Eps,
                longest = True\<rparr>, skipNewline = True\<rparr>"
  define t0 where "t0 = \<lparr>ID = 0, Value = ''a'', Index = 0\<rparr>"
  define t2 where "t2 = \<lparr>ID = 0, Value = ''a'', Index = 2\<rparr>"
  have new: "New [''a''] = Some (Inr l)"
    unfolding l_def by code_simp
  have sk: "skipWhitespace \<lparr>buffer = ''a a'', index = 0\<rparr> True = Returns \<lparr>buffer = ''a a'', index = 0\<rparr>"
    "skipWhitespace \<lparr>buffer = ''a a'', index = 1\<rparr> True = Returns \<lparr>buffer = ''a a'', index = 2\<rparr>"
    "skipWhitespace \<lparr>buffer = ''a a'', index = 3\<rparr> True = Returns \<lparr>buffer = ''a a'', index = 3\<rparr>"
    by code_simp+
  have g: "getNextToken l \<lparr>buffer = ''a a'', index = 0\<rparr> = Returns ((t0, None), \<lparr>buffer = ''a a'', index = 1\<rparr>)"
    "getNextToken l \<lparr>buffer = ''a a'', index = 2\<rparr> = Returns ((t2, None), \<lparr>buffer = ''a a'', index = 3\<rparr>)"
    unfolding l_def t0_def t2_def by code_simp+
  have eoi: "endOfInput \<lparr>buffer = ''a a'', index = 3\<rparr>"
    by (simp add: endOfInput_def)
  have skl: "skipNewline l" by (simp add: l_def)
  have reach: "(b = \<lparr>buffer = ''a a'', index = 0\<rparr> \<and> list = [])
      \<or> (b = \<lparr>buffer = ''a a'', index = 1\<rparr> \<and> list = [t0])
      \<or> (b = \<lparr>buffer = ''a a'', index = 3\<rparr> \<and> list = [t0, t2])"
    if "scan l ''a a'' b list" for b list
    using that
  proof (induction rule: scan.induct)
    case scan_start
    show ?case by simp
  next
    case (scan_step b list b1 token b2)
    from scan_step.IH scan_step.hyps(2-4) sk g eoi skl show ?case
      by auto
  qed
  have "\<forall>b list. scan l ''a a'' b list \<longrightarrow> (\<forall>t\<in>set list. Value t \<noteq> [])"
    using reach by (fastforce simp: t0_def t2_def)
  from Lex_terminates [OF this] new show ?thesis by blast
qed

text \<open>
  C9. Claimed: the last branch of \<open>getNextToken\<close>, the panic, is never reached. With an
  empty pattern set the compiled expression is empty and has no group: it matches the
  empty text at the cursor, the loop over the groups runs zero times, and \<open>Lex\<close> panics on
  any input that is not all white space. A pattern that closes the group of \<open>New\<close> and opens
  a group without a name reaches the panic as well.
\<close>

theorem panic_is_reachable:
  "lex_string [] ''x'' = Some (Inr (Some Panics))
   \<and> lex_string ['')|(abc''] ''abc'' = Some (Inr (Some Panics))"
  by code_simp

text \<open>
  C10. Claimed: \<open>Less t u\<close> holds exactly when \<open>(Value, ID, Index)\<close> of \<open>t\<close> precedes that of
  \<open>u\<close> lexicographically. The code returns true as soon as any one field is smaller, without
  checking that the earlier fields are equal: for \<open>t = {0, "b", 0}\<close> and \<open>u = {1, "a", 0}\<close> it
  answers true in both directions, although \<open>t\<close> comes after \<open>u\<close> by value.
\<close>

theorem Less_not_lexicographic:
  "Less \<lparr>ID = 0, Value = ''b'', Index = 0\<rparr> \<lparr>ID = 1, Value = ''a'', Index = 0\<rparr>
   \<and> Less \<lparr>ID = 1, Value = ''a'', Index = 0\<rparr> \<lparr>ID = 0, Value = ''b'', Index = 0\<rparr>
   \<and> \<not> lex_before \<lparr>ID = 0, Value = ''b'', Index = 0\<rparr> \<lparr>ID = 1, Value = ''a'', Index = 0\<rparr>"
  by (simp add: Less_def lex_before_def less_char_def)

end
